theory Spec2Isabelle
  imports
    Main
    "HOL-Library.Char_ord"
    "HOL-Library.List_Lexorder"
    "HOL-Library.Product_Lexorder"
    "HOL-Library.Multiset"
begin

section \<open>The library example of \<^verbatim>\<open>solid.py\<close>\<close>

text \<open>
  A shallow embedding of \<^verbatim>\<open>src/solid.py\<close>: the frozen dataclass \<^verbatim>\<open>Book\<close>, the
  abstract \<^verbatim>\<open>LibraryInterface\<close>, its base implementation \<^verbatim>\<open>InMemoryLibrary\<close>, the
  two decorators and \<^verbatim>\<open>LibraryManager\<close>.

  Python strings are modelled as \<open>string\<close>, the bytes of their UTF-8 encoding;
  comparing them byte by byte (\<open>Char_ord\<close>, \<open>List_Lexorder\<close>) orders them as Python
  orders them by code point. The two builtins the program calls on strings,
  \<^verbatim>\<open>str.lower\<close> and \<^verbatim>\<open>int\<close>, are not code of the program: every definition that
  calls one takes it as a parameter (\<open>lower\<close>, \<open>int_of\<close>), and the theorems hold for
  whatever these functions are. For concrete runs the ASCII instances
  \<open>ascii_lower\<close> and \<open>ascii_int\<close> are supplied.
\<close>

subsection \<open>Book\<close>

record book =
  title :: string
  author :: string
  year :: int

text \<open>
  Decimal rendering of an integer, as the f-string renders \<^verbatim>\<open>{self.year}\<close>
  (\<open>digit_char\<close> is only applied to numbers below 10). CPython bounds the number of
  digits it converts between \<^verbatim>\<open>int\<close> and \<^verbatim>\<open>str\<close>, in either direction: beyond
  \<^verbatim>\<open>sys.int_info.default_max_str_digits\<close>, which is 4300, the conversion raises
  \<^verbatim>\<open>ValueError\<close>. \<open>limit_error\<close> is that exception; the wording of its message is the
  interpreter's and is abbreviated here.
\<close>

definition digit_char :: "nat \<Rightarrow> char" where
  "digit_char d = ''0123456789'' ! d"

function str_nat :: "nat \<Rightarrow> string" where
  "str_nat n = (if n < 10 then [digit_char n] else str_nat (n div 10) @ [digit_char (n mod 10)])"
  by pat_completeness auto
termination
  by (relation "measure (\<lambda>n. n)") auto

declare str_nat.simps [simp del]

text \<open>
  \<open>ValueError\<close> is the only exception class the program raises or catches;
  \<open>OtherError\<close> stands for any other class an implementation of the interface may raise.
\<close>

datatype exn = ValueError string | OtherError string

definition int_max_str_digits :: nat where
  "int_max_str_digits = 4300"

definition limit_error :: exn where
  "limit_error = ValueError ''Exceeds the limit (4300 digits) for integer string conversion''"

text \<open>An integer renders when its digits are no more than the limit.\<close>

definition renders :: "int \<Rightarrow> bool" where
  "renders i = (length (str_nat (nat \<bar>i\<bar>)) \<le> int_max_str_digits)"

definition str_int :: "int \<Rightarrow> exn + string" where
  "str_int i =
     (if renders i
      then Inr (if i < 0 then CHR ''-'' # str_nat (nat \<bar>i\<bar>) else str_nat (nat \<bar>i\<bar>))
      else Inl limit_error)"

text \<open>
  \<^verbatim>\<open>Book.__str__\<close>: \<^verbatim>\<open>f'Title: "{self.title}", Author: {self.author}, Year: {self.year}'\<close>.
  The title and the author are strings and go in as they are; rendering the year may raise.
\<close>

definition book_str :: "book \<Rightarrow> exn + string" where
  "book_str b =
     (case str_int (year b) of
        Inl e \<Rightarrow> Inl e
      | Inr y \<Rightarrow>
          Inr (''Title: '' @ [CHR 0x22] @ title b @ [CHR 0x22] @ '', Author: '' @ author b
                 @ '', Year: '' @ y))"

subsection \<open>Standard output and the interface\<close>

text \<open>
  The world an operation runs in: the state of the innermost store and the lines printed
  so far. Decorators and the manager hold nothing but a reference fixed at construction,
  so they add no state of their own.
\<close>

record 's world =
  store :: 's
  out :: "string list"

definition print :: "string \<Rightarrow> 's world \<Rightarrow> 's world" where
  "print line w = w\<lparr>out := out w @ [line]\<rparr>"

type_synonym ('s, 'a) operation = "'s world \<Rightarrow> (exn + 'a) \<times> 's world"

text \<open>\<^verbatim>\<open>LibraryInterface\<close>: an object is the triple of its three operations.\<close>

record 's library =
  add_book :: "book \<Rightarrow> ('s, unit) operation"
  remove_book :: "string \<Rightarrow> ('s, bool) operation"
  get_books :: "('s, book list) operation"

subsection \<open>InMemoryLibrary\<close>

text \<open>The state is the list \<^verbatim>\<open>self._books\<close>.\<close>

definition InMemoryLibrary_init :: "book list" where
  "InMemoryLibrary_init = []"

definition InMemoryLibrary_add_book :: "book \<Rightarrow> (book list, unit) operation" where
  "InMemoryLibrary_add_book b w = (Inr (), w\<lparr>store := store w @ [b]\<rparr>)"

text \<open>
  The loop \<^verbatim>\<open>for idx, b in enumerate(self._books)\<close>: \<open>scan\<close> walks the list with
  the running index and yields the index of the first book whose lower-cased title is
  \<open>t\<close>, or \<open>None\<close> when the loop runs to its end.
\<close>

fun scan :: "(string \<Rightarrow> string) \<Rightarrow> string \<Rightarrow> nat \<Rightarrow> book list \<Rightarrow> nat option" where
  "scan lower t idx [] = None"
| "scan lower t idx (b # bs) =
     (if lower (title b) = t then Some idx else scan lower t (Suc idx) bs)"

text \<open>\<^verbatim>\<open>del xs[idx]\<close> for an index in range.\<close>

definition del_at :: "nat \<Rightarrow> 'a list \<Rightarrow> 'a list" where
  "del_at idx xs = take idx xs @ drop (Suc idx) xs"

text \<open>The lower-cased titles of a list of books: what \<^verbatim>\<open>remove_book\<close> compares with.\<close>

definition keys :: "(string \<Rightarrow> string) \<Rightarrow> book list \<Rightarrow> string set" where
  "keys lower bs = (\<lambda>b. lower (title b)) ` set bs"

definition InMemoryLibrary_remove_book ::
  "(string \<Rightarrow> string) \<Rightarrow> string \<Rightarrow> (book list, bool) operation" where
  "InMemoryLibrary_remove_book lower titl w =
     (let t = lower titl in
      case scan lower t 0 (store w) of
        Some idx \<Rightarrow> (Inr True, w\<lparr>store := del_at idx (store w)\<rparr>)
      | None \<Rightarrow> (Inr False, w))"

definition InMemoryLibrary_get_books :: "(book list, book list) operation" where
  "InMemoryLibrary_get_books w = (Inr (store w), w)"

definition InMemoryLibrary :: "(string \<Rightarrow> string) \<Rightarrow> book list library" where
  "InMemoryLibrary lower =
     \<lparr>add_book = InMemoryLibrary_add_book,
      remove_book = InMemoryLibrary_remove_book lower,
      get_books = InMemoryLibrary_get_books\<rparr>"

subsection \<open>LoggingLibraryDecorator\<close>

text \<open>
  \<^verbatim>\<open>add_book\<close> builds the line \<^verbatim>\<open>f"[LOG] add: {book}"\<close> first: when the book does not
  render, the exception leaves the method before anything is printed or delegated.
\<close>

definition LoggingLibraryDecorator_add_book :: "'s library \<Rightarrow> book \<Rightarrow> ('s, unit) operation" where
  "LoggingLibraryDecorator_add_book inner b w =
     (case book_str b of
        Inl e \<Rightarrow> (Inl e, w)
      | Inr s \<Rightarrow> add_book inner b (print (''[LOG] add: '' @ s) w))"

definition LoggingLibraryDecorator_remove_book ::
  "'s library \<Rightarrow> string \<Rightarrow> ('s, bool) operation" where
  "LoggingLibraryDecorator_remove_book inner titl w =
     remove_book inner titl (print (''[LOG] remove: '' @ [CHR 0x22] @ titl @ [CHR 0x22]) w)"

definition LoggingLibraryDecorator_get_books :: "'s library \<Rightarrow> ('s, book list) operation" where
  "LoggingLibraryDecorator_get_books inner w = get_books inner w"

definition LoggingLibraryDecorator :: "'s library \<Rightarrow> 's library" where
  "LoggingLibraryDecorator inner =
     \<lparr>add_book = LoggingLibraryDecorator_add_book inner,
      remove_book = LoggingLibraryDecorator_remove_book inner,
      get_books = LoggingLibraryDecorator_get_books inner\<rparr>"

subsection \<open>SortedViewLibrary\<close>

text \<open>The key \<^verbatim>\<open>lambda b: (b.title.lower(), b.year)\<close>; pairs compare lexicographically.\<close>

definition sort_key_of :: "(string \<Rightarrow> string) \<Rightarrow> book \<Rightarrow> string \<times> int" where
  "sort_key_of lower b = (lower (title b), year b)"

text \<open>
  \<^verbatim>\<open>sorted(xs, key=k)\<close> builds a new list, ascending in the key and stable;
  \<open>sort_key\<close> is the stable sort of the library.
\<close>

definition sorted_by :: "(string \<Rightarrow> string) \<Rightarrow> book list \<Rightarrow> book list" where
  "sorted_by lower bs = sort_key (sort_key_of lower) bs"

definition SortedViewLibrary_add_book :: "'s library \<Rightarrow> book \<Rightarrow> ('s, unit) operation" where
  "SortedViewLibrary_add_book inner b w = add_book inner b w"

definition SortedViewLibrary_remove_book :: "'s library \<Rightarrow> string \<Rightarrow> ('s, bool) operation" where
  "SortedViewLibrary_remove_book inner titl w = remove_book inner titl w"

definition SortedViewLibrary_get_books ::
  "(string \<Rightarrow> string) \<Rightarrow> 's library \<Rightarrow> ('s, book list) operation" where
  "SortedViewLibrary_get_books lower inner w =
     (case get_books inner w of
        (Inl e, w') \<Rightarrow> (Inl e, w')
      | (Inr bs, w') \<Rightarrow> (Inr (sorted_by lower bs), w'))"

definition SortedViewLibrary :: "(string \<Rightarrow> string) \<Rightarrow> 's library \<Rightarrow> 's library" where
  "SortedViewLibrary lower inner =
     \<lparr>add_book = SortedViewLibrary_add_book inner,
      remove_book = SortedViewLibrary_remove_book inner,
      get_books = SortedViewLibrary_get_books lower inner\<rparr>"

subsection \<open>LibraryManager\<close>

text \<open>
  \<^verbatim>\<open>_parse_year\<close>. \<open>int_of\<close> is the builtin \<^verbatim>\<open>int\<close> on a string, \<open>None\<close> when it
  raises \<^verbatim>\<open>ValueError\<close>. The body of the \<^verbatim>\<open>try\<close> is \<open>parse_year_try\<close>; the handler
  replaces every \<open>ValueError\<close>, the one of \<^verbatim>\<open>int\<close> and the one raised for a year
  \<open>\<le> 0\<close>, by the one with the fixed message.
\<close>

definition parse_year_try :: "(string \<Rightarrow> int option) \<Rightarrow> string \<Rightarrow> exn + int" where
  "parse_year_try int_of v =
     (case int_of v of
        None \<Rightarrow> Inl (ValueError ''invalid literal for int()'')
      | Some y \<Rightarrow> if y \<le> 0 then Inl (ValueError ''non-positive'') else Inr y)"

definition parse_year :: "(string \<Rightarrow> int option) \<Rightarrow> string \<Rightarrow> exn + int" where
  "parse_year int_of v =
     (case parse_year_try int_of v of
        Inl (ValueError m) \<Rightarrow> Inl (ValueError ''Year must be a positive integer.'')
      | Inl e \<Rightarrow> Inl e
      | Inr y \<Rightarrow> Inr y)"

definition LibraryManager_add_book ::
  "(string \<Rightarrow> int option) \<Rightarrow> 's library \<Rightarrow> string \<Rightarrow> string \<Rightarrow> string \<Rightarrow> ('s, unit) operation" where
  "LibraryManager_add_book int_of lib titl auth year_raw w =
     (case parse_year int_of year_raw of
        Inl e \<Rightarrow> (Inl e, w)
      | Inr y \<Rightarrow>
          (case add_book lib \<lparr>title = titl, author = auth, year = y\<rparr> w of
             (Inl e, w') \<Rightarrow> (Inl e, w')
           | (Inr u, w') \<Rightarrow> (Inr (), print ''Book added.'' w')))"

definition LibraryManager_remove_book :: "'s library \<Rightarrow> string \<Rightarrow> ('s, unit) operation" where
  "LibraryManager_remove_book lib titl w =
     (case remove_book lib titl w of
        (Inl e, w') \<Rightarrow> (Inl e, w')
      | (Inr ok, w') \<Rightarrow>
          (Inr (), print (if ok then ''Book removed.'' else ''Book not found.'') w'))"

text \<open>
  The loop \<^verbatim>\<open>for b in books: print(b)\<close>; it stops at the first book that does not
  render, the lines of the books before it printed.
\<close>

fun print_all :: "book list \<Rightarrow> ('s, unit) operation" where
  "print_all [] w = (Inr (), w)"
| "print_all (b # bs) w =
     (case book_str b of
        Inl e \<Rightarrow> (Inl e, w)
      | Inr s \<Rightarrow> print_all bs (print s w))"

definition LibraryManager_show_books :: "'s library \<Rightarrow> ('s, unit) operation" where
  "LibraryManager_show_books lib w =
     (case get_books lib w of
        (Inl e, w') \<Rightarrow> (Inl e, w')
      | (Inr books, w') \<Rightarrow>
          (if books = [] then (Inr (), print ''No books in library.'' w')
           else print_all books w'))"

subsection \<open>Call sequences\<close>

text \<open>
  A client of the interface: one call with its outcome, and a sequence of calls run in
  order, each outcome recorded (an exception is recorded and the run goes on, as the
  command loop of \<^verbatim>\<open>main\<close> does).
\<close>

datatype call = Add book | Remove string | GetBooks

datatype outcome = Returned_None | Returned_Bool bool | Returned_List "book list" | Raised exn

definition outcome_of :: "('a \<Rightarrow> outcome) \<Rightarrow> (exn + 'a) \<times> 's world \<Rightarrow> outcome \<times> 's world" where
  "outcome_of f r = (case r of (Inl e, w) \<Rightarrow> (Raised e, w) | (Inr v, w) \<Rightarrow> (f v, w))"

fun do_call :: "'s library \<Rightarrow> call \<Rightarrow> 's world \<Rightarrow> outcome \<times> 's world" where
  "do_call lib (Add b) w = outcome_of (\<lambda>u. Returned_None) (add_book lib b w)"
| "do_call lib (Remove t) w = outcome_of Returned_Bool (remove_book lib t w)"
| "do_call lib GetBooks w = outcome_of Returned_List (get_books lib w)"

fun run :: "'s library \<Rightarrow> call list \<Rightarrow> 's world \<Rightarrow> outcome list \<times> 's world" where
  "run lib [] w = ([], w)"
| "run lib (c # cs) w =
     (case do_call lib c w of (r, w') \<Rightarrow> (case run lib cs w' of (rs, w'') \<Rightarrow> (r # rs, w'')))"

text \<open>
  What a sorted view makes of an outcome of the store it wraps, and the lines a logging
  decorator prints for a call.
\<close>

fun sorted_outcome :: "(string \<Rightarrow> string) \<Rightarrow> outcome \<Rightarrow> outcome" where
  "sorted_outcome lower (Returned_List bs) = Returned_List (sorted_by lower bs)"
| "sorted_outcome lower r = r"

fun audit_line :: "call \<Rightarrow> string list" where
  "audit_line (Add b) =
     (case book_str b of Inl e \<Rightarrow> [] | Inr s \<Rightarrow> [''[LOG] add: '' @ s])"
| "audit_line (Remove t) = [''[LOG] remove: '' @ [CHR 0x22] @ t @ [CHR 0x22]]"
| "audit_line GetBooks = []"

definition audit_lines :: "call list \<Rightarrow> string list" where
  "audit_lines cs = concat (map audit_line cs)"

text \<open>A call whose book, if it has one, renders.\<close>

fun renderable :: "call \<Rightarrow> bool" where
  "renderable (Add b) = renders (year b)"
| "renderable (Remove t) = True"
| "renderable GetBooks = True"

text \<open>The same for the manager's three commands.\<close>

datatype command = Cmd_add string string string | Cmd_remove string | Cmd_show

fun do_command ::
  "(string \<Rightarrow> int option) \<Rightarrow> 's library \<Rightarrow> command \<Rightarrow> ('s, unit) operation" where
  "do_command int_of lib (Cmd_add t a y) w = LibraryManager_add_book int_of lib t a y w"
| "do_command int_of lib (Cmd_remove t) w = LibraryManager_remove_book lib t w"
| "do_command int_of lib Cmd_show w = LibraryManager_show_books lib w"

fun run_commands ::
  "(string \<Rightarrow> int option) \<Rightarrow> 's library \<Rightarrow> command list \<Rightarrow> 's world \<Rightarrow> 's world" where
  "run_commands int_of lib [] w = w"
| "run_commands int_of lib (c # cs) w = run_commands int_of lib cs (snd (do_command int_of lib c w))"

text \<open>
  The stores the program can build: the base store under any number of decorators, in any
  order (\<^verbatim>\<open>main\<close> builds \<open>Sorted_over (Logging_over Base)\<close>).
\<close>

datatype chain = Base | Logging_over chain | Sorted_over chain

fun build :: "(string \<Rightarrow> string) \<Rightarrow> chain \<Rightarrow> book list library" where
  "build lower Base = InMemoryLibrary lower"
| "build lower (Logging_over c) = LoggingLibraryDecorator (build lower c)"
| "build lower (Sorted_over c) = SortedViewLibrary lower (build lower c)"

text \<open>Whether a chain has a logging decorator in it.\<close>

fun logs :: "chain \<Rightarrow> bool" where
  "logs Base = False"
| "logs (Logging_over c) = True"
| "logs (Sorted_over c) = logs c"

subsection \<open>The builtins on ASCII strings\<close>

text \<open>
  \<^verbatim>\<open>str.lower\<close> on a string of ASCII characters: the letters \<^verbatim>\<open>A\<close> to \<^verbatim>\<open>Z\<close> move to
  \<^verbatim>\<open>a\<close> to \<^verbatim>\<open>z\<close>, every other character stays.
\<close>

definition lower_char :: "char \<Rightarrow> char" where
  "lower_char c =
     (case map_of (zip ''ABCDEFGHIJKLMNOPQRSTUVWXYZ'' ''abcdefghijklmnopqrstuvwxyz'') c of
        Some l \<Rightarrow> l
      | None \<Rightarrow> c)"

definition ascii_lower :: "string \<Rightarrow> string" where
  "ascii_lower s = map lower_char s"

text \<open>
  \<^verbatim>\<open>int(s)\<close> on a string of ASCII characters, base 10: white space (the characters
  9 to 13 and the blank) is stripped at both ends, one sign may lead, and the digits may
  be separated by single underscores; a literal of more digits than the limit is
  refused, leading zeros counted. \<open>None\<close> is \<^verbatim>\<open>ValueError\<close>.
\<close>

definition is_space :: "char \<Rightarrow> bool" where
  "is_space c = (let n = (of_char c :: nat) in (9 \<le> n \<and> n \<le> 13) \<or> n = 32)"

definition is_digit :: "char \<Rightarrow> bool" where
  "is_digit c = (let n = (of_char c :: nat) in 48 \<le> n \<and> n \<le> 57)"

definition digit_val :: "char \<Rightarrow> nat" where
  "digit_val c = of_char c - 48"

definition strip :: "string \<Rightarrow> string" where
  "strip s = rev (dropWhile is_space (rev (dropWhile is_space s)))"

fun digits :: "nat \<Rightarrow> string \<Rightarrow> nat option" where
  "digits acc [] = Some acc"
| "digits acc [c] = (if is_digit c then Some (10 * acc + digit_val c) else None)"
| "digits acc (c # d # cs) =
     (if is_digit c then digits (10 * acc + digit_val c) (d # cs)
      else if c = CHR ''_'' \<and> is_digit d then digits (10 * acc + digit_val d) cs
      else None)"

definition unsigned :: "string \<Rightarrow> nat option" where
  "unsigned s =
     (case s of
        [] \<Rightarrow> None
      | c # cs \<Rightarrow>
          if is_digit c \<and> length (filter is_digit s) \<le> int_max_str_digits
          then digits (digit_val c) cs
          else None)"

definition ascii_int :: "string \<Rightarrow> int option" where
  "ascii_int s =
     (case strip s of
        [] \<Rightarrow> None
      | c # cs \<Rightarrow>
          if c = CHR ''-'' then map_option (\<lambda>n. - int n) (unsigned cs)
          else if c = CHR ''+'' then map_option int (unsigned cs)
          else map_option int (unsigned (c # cs)))"

subsection \<open>The list objects of InMemoryLibrary on a heap\<close>

text \<open>
  For what \<^verbatim>\<open>get_books\<close> shares with its caller, list objects are cells of a heap:
  an address is an index into the heap, and creating a list appends a cell, so that a new
  address is the length of the heap before. An \<^verbatim>\<open>InMemoryLibrary\<close> object is the
  address held in \<^verbatim>\<open>self._books\<close>. Books are frozen, so they are values.
\<close>

type_synonym addr = nat
type_synonym heap = "book list list"

definition new_list :: "book list \<Rightarrow> heap \<Rightarrow> addr \<times> heap" where
  "new_list xs h = (length h, h @ [xs])"

definition heap_init :: "heap \<Rightarrow> addr \<times> heap" where
  "heap_init h = new_list [] h"

text \<open>\<^verbatim>\<open>self._books.append(book)\<close> changes the list object in place.\<close>

definition heap_add_book :: "addr \<Rightarrow> book \<Rightarrow> heap \<Rightarrow> heap" where
  "heap_add_book self b h = h[self := h ! self @ [b]]"

definition heap_remove_book :: "(string \<Rightarrow> string) \<Rightarrow> addr \<Rightarrow> string \<Rightarrow> heap \<Rightarrow> bool \<times> heap" where
  "heap_remove_book lower self titl h =
     (let t = lower titl in
      case scan lower t 0 (h ! self) of
        Some idx \<Rightarrow> (True, h[self := del_at idx (h ! self)])
      | None \<Rightarrow> (False, h))"

text \<open>\<^verbatim>\<open>return list(self._books)\<close>: a new list object with the same elements.\<close>

definition heap_get_books :: "addr \<Rightarrow> heap \<Rightarrow> addr \<times> heap" where
  "heap_get_books self h = new_list (h ! self) h"

text \<open>Whatever a caller does to a list object it holds: the cell gets some new content.\<close>

definition mutate :: "addr \<Rightarrow> book list \<Rightarrow> heap \<Rightarrow> heap" where
  "mutate a xs h = h[a := xs]"

text \<open>The store \<^verbatim>\<open>main\<close> hands to the manager, and the invariant of the validated path.\<close>

definition main_chain :: "book list library" where
  "main_chain = build ascii_lower (Sorted_over (Logging_over Base))"

definition years_positive :: "book list \<Rightarrow> bool" where
  "years_positive bs = list_all (\<lambda>b. 0 < year b) bs"

subsection \<open>Example books\<close>

definition dune :: book where
  "dune = \<lparr>title = ''Dune'', author = ''Herbert'', year = 1965\<rparr>"

definition DUNE :: book where
  "DUNE = \<lparr>title = ''DUNE'', author = ''F. Herbert'', year = 1984\<rparr>"

definition nineteen84 :: book where
  "nineteen84 = \<lparr>title = ''1984'', author = ''Orwell'', year = 1949\<rparr>"

text \<open>\<^verbatim>\<open>Book("B", "b", 10 ** 4300)\<close>: the year has one digit more than the limit.\<close>

definition big :: book where
  "big = \<lparr>title = ''B'', author = ''b'', year = 10 ^ int_max_str_digits\<rparr>"

lemmas examples = dune_def DUNE_def nineteen84_def
lemmas eval_lower = ascii_lower_def lower_char_def keys_def

section \<open>Properties\<close>

subsection \<open>The scan of \<open>remove_book\<close>\<close>

lemma scan_None_iff: "scan lower t i bs = None \<longleftrightarrow> t \<notin> keys lower bs"
  by (induction bs arbitrary: i) (auto simp: keys_def)

lemma scan_first:
  "t \<notin> keys lower pre \<Longrightarrow> lower (title b) = t \<Longrightarrow>
     scan lower t i (pre @ b # post) = Some (i + length pre)"
  by (induction pre arbitrary: i) (auto simp: keys_def)

lemma scan_Some_split:
  "scan lower t i bs = Some k \<Longrightarrow>
     \<exists>pre b post. bs = pre @ b # post \<and> k = i + length pre \<and> lower (title b) = t \<and> t \<notin> keys lower pre"
proof (induction bs arbitrary: i)
  case Nil
  then show ?case by simp
next
  case (Cons x xs)
  show ?case
  proof (cases "lower (title x) = t")
    case True
    with Cons.prems have "k = i" by simp
    with True have "x # xs = [] @ x # xs \<and> k = i + length ([]::book list) \<and> lower (title x) = t \<and> t \<notin> keys lower []"
      by (simp add: keys_def)
    then show ?thesis by blast
  next
    case False
    with Cons.prems have "scan lower t (Suc i) xs = Some k" by simp
    from Cons.IH [OF this] obtain pre b post where
      "xs = pre @ b # post" "k = Suc i + length pre" "lower (title b) = t" "t \<notin> keys lower pre"
      by blast
    with False have "x # xs = (x # pre) @ b # post \<and> k = i + length (x # pre) \<and> lower (title b) = t \<and> t \<notin> keys lower (x # pre)"
      by (simp add: keys_def)
    then show ?thesis by blast
  qed
qed

lemma del_at_middle: "del_at (length pre) (pre @ b # post) = pre @ post"
  by (simp add: del_at_def)

lemma remove_book_cases:
  "InMemoryLibrary_remove_book lower titl w =
     (case scan lower (lower titl) 0 (store w) of
        Some idx \<Rightarrow> (Inr True, w\<lparr>store := del_at idx (store w)\<rparr>)
      | None \<Rightarrow> (Inr False, w))"
  by (simp add: InMemoryLibrary_remove_book_def)

subsection \<open>Removing a book\<close>

text \<open>
  Claim C5. For every title and every store state, \<^verbatim>\<open>remove_book\<close> of
  \<^verbatim>\<open>InMemoryLibrary\<close> never raises: it returns normally, with \<open>False\<close> when no stored
  title matches the given one after lower-casing both, and with \<open>True\<close> when one does.
\<close>

theorem remove_book_never_raises:
  "fst (InMemoryLibrary_remove_book lower titl w) = Inr (lower titl \<in> keys lower (store w))"
proof (cases "scan lower (lower titl) 0 (store w)")
  case None
  then have "lower titl \<notin> keys lower (store w)" by (simp add: scan_None_iff)
  with None show ?thesis by (simp add: remove_book_cases)
next
  case (Some k)
  then have "lower titl \<in> keys lower (store w)"
    using scan_None_iff [of lower "lower titl" 0 "store w"] by simp
  with Some show ?thesis by (simp add: remove_book_cases)
qed

theorem remove_book_never_raises_witness:
  "fst (InMemoryLibrary_remove_book ascii_lower ''dune''
          \<lparr>store = [\<lparr>title = ''Dune'', author = ''Herbert'', year = 1965\<rparr>], out = []\<rparr>) = Inr True
   \<and> fst (InMemoryLibrary_remove_book ascii_lower ''emma''
          \<lparr>store = [\<lparr>title = ''Dune'', author = ''Herbert'', year = 1965\<rparr>], out = []\<rparr>) = Inr False"
  using remove_book_never_raises [of ascii_lower "''dune''"
          "\<lparr>store = [\<lparr>title = ''Dune'', author = ''Herbert'', year = 1965\<rparr>], out = []\<rparr>"]
        remove_book_never_raises [of ascii_lower "''emma''"
          "\<lparr>store = [\<lparr>title = ''Dune'', author = ''Herbert'', year = 1965\<rparr>], out = []\<rparr>"]
  by (simp add: keys_def ascii_lower_def lower_char_def)

text \<open>
  Claim C10. The frame of \<^verbatim>\<open>remove_book\<close> on \<^verbatim>\<open>InMemoryLibrary\<close>: when it returns
  \<open>False\<close> the world is unchanged (and no title matches); when it returns \<open>True\<close> the
  list of books is the old one with exactly one element taken out, the first whose
  lower-cased title matches, every other book staying in its place relative to the
  others, and nothing else of the world changes.
\<close>

theorem remove_book_frame:
  "InMemoryLibrary_remove_book lower titl w = (r, w') \<Longrightarrow>
     (r = Inr False \<and> w' = w \<and> lower titl \<notin> keys lower (store w)) \<or>
     (r = Inr True \<and>
        (\<exists>pre b post. store w = pre @ b # post \<and> w' = w\<lparr>store := pre @ post\<rparr> \<and>
           lower (title b) = lower titl \<and> lower titl \<notin> keys lower pre))"
proof (cases "scan lower (lower titl) 0 (store w)")
  case None
  assume run: "InMemoryLibrary_remove_book lower titl w = (r, w')"
  from None have "lower titl \<notin> keys lower (store w)" by (simp add: scan_None_iff)
  moreover from run None have "r = Inr False" "w' = w"
    by (simp_all add: remove_book_cases)
  ultimately show ?thesis by simp
next
  case (Some k)
  assume run: "InMemoryLibrary_remove_book lower titl w = (r, w')"
  from scan_Some_split [OF Some] obtain pre b post where
    split: "store w = pre @ b # post" "k = length pre"
      "lower (title b) = lower titl" "lower titl \<notin> keys lower pre"
    by auto
  from run Some split have "r = Inr True" "w' = w\<lparr>store := pre @ post\<rparr>"
    by (simp_all add: remove_book_cases del_at_middle)
  with split show ?thesis by blast
qed

theorem remove_book_frame_witness:
  "InMemoryLibrary_remove_book ascii_lower ''dune'' \<lparr>store = [nineteen84, dune, DUNE], out = []\<rparr>
     = (Inr True, \<lparr>store = [nineteen84, DUNE], out = []\<rparr>)
   \<and> (\<exists>pre b post. [nineteen84, dune, DUNE] = pre @ b # post \<and> [nineteen84, DUNE] = pre @ post \<and>
         ascii_lower (title b) = ''dune'' \<and> ''dune'' \<notin> keys ascii_lower pre)"
proof -
  have run: "InMemoryLibrary_remove_book ascii_lower ''dune'' \<lparr>store = [nineteen84, dune, DUNE], out = []\<rparr>
     = (Inr True, \<lparr>store = [nineteen84, DUNE], out = []\<rparr>)"
    by (simp add: remove_book_cases del_at_def examples eval_lower)
  have low: "ascii_lower ''dune'' = ''dune''"
    by (simp add: eval_lower)
  from remove_book_frame [OF run] low run show ?thesis
    by simp
qed

text \<open>
  Claim C2. In a store where the book \<open>b\<close> is the first whose title matches \<open>titl\<close> up
  to case (that is, after \<^verbatim>\<open>lower()\<close> on both, as the code compares), one call of
  \<^verbatim>\<open>remove_book\<close> with any casing of that title returns \<open>True\<close> and removes \<open>b\<close> and
  nothing else; \<^verbatim>\<open>get_books\<close> afterwards returns the books before \<open>b\<close> followed by
  all the books inserted after \<open>b\<close>, so every later book with that title is still listed.
\<close>

theorem remove_book_first_match:
  assumes "store w = pre @ b # post"
    and "lower (title b) = lower titl"
    and "lower titl \<notin> keys lower pre"
  shows "InMemoryLibrary_remove_book lower titl w = (Inr True, w\<lparr>store := pre @ post\<rparr>)
    \<and> fst (InMemoryLibrary_get_books (snd (InMemoryLibrary_remove_book lower titl w)))
        = Inr (pre @ post)
    \<and> filter (\<lambda>x. lower (title x) = lower titl) (pre @ post)
        = filter (\<lambda>x. lower (title x) = lower titl) post"
proof -
  from assms have "scan lower (lower titl) 0 (store w) = Some (length pre)"
    using scan_first [of "lower titl" lower pre b 0 post] by simp
  with assms(1) have 1: "InMemoryLibrary_remove_book lower titl w = (Inr True, w\<lparr>store := pre @ post\<rparr>)"
    by (simp add: InMemoryLibrary_remove_book_def del_at_middle)
  from assms(3) have 2: "filter (\<lambda>x. lower (title x) = lower titl) pre = []"
    by (force simp: keys_def filter_empty_conv image_iff)
  from 1 2 show ?thesis
    by (simp add: InMemoryLibrary_get_books_def)
qed

theorem remove_book_first_match_witness:
  "InMemoryLibrary_remove_book ascii_lower ''dune'' \<lparr>store = [dune, DUNE], out = []\<rparr>
     = (Inr True, \<lparr>store = [DUNE], out = []\<rparr>)
   \<and> fst (InMemoryLibrary_get_books
        (snd (InMemoryLibrary_remove_book ascii_lower ''dune'' \<lparr>store = [dune, DUNE], out = []\<rparr>)))
     = Inr [DUNE]"
proof -
  have 1: "store \<lparr>store = [dune, DUNE], out = []\<rparr> = [] @ dune # [DUNE]"
    by simp
  have 2: "ascii_lower (title dune) = ascii_lower ''dune''"
    by (simp add: examples eval_lower)
  have 3: "ascii_lower ''dune'' \<notin> keys ascii_lower []"
    by (simp add: keys_def)
  from remove_book_first_match [OF 1 2 3] show ?thesis
    by (simp add: InMemoryLibrary_get_books_def)
qed

subsection \<open>Insertion order\<close>

lemma run_append:
  "run lib (cs @ ds) w =
     (fst (run lib cs w) @ fst (run lib ds (snd (run lib cs w))), snd (run lib ds (snd (run lib cs w))))"
  by (induction cs arbitrary: w) (auto split: prod.splits)

lemma run_adds:
  "run (InMemoryLibrary lower) (map Add bs) w =
     (replicate (length bs) Returned_None, w\<lparr>store := store w @ bs\<rparr>)"
  by (induction bs arbitrary: w)
     (auto simp: InMemoryLibrary_def InMemoryLibrary_add_book_def outcome_of_def)

text \<open>
  Claim C6. From any store state, a sequence of \<^verbatim>\<open>add_book\<close> calls with no
  \<^verbatim>\<open>remove_book\<close> in between, followed by \<^verbatim>\<open>get_books\<close>, returns the books that were
  there followed by the added ones in the order of the calls; every call appends, and
  nothing is dropped when a book is added twice.
\<close>

theorem get_books_insertion_order:
  "run (InMemoryLibrary lower) (map Add bs @ [GetBooks]) w =
     (replicate (length bs) Returned_None @ [Returned_List (store w @ bs)],
      w\<lparr>store := store w @ bs\<rparr>)"
  by (simp add: run_append run_adds)
     (simp add: InMemoryLibrary_def InMemoryLibrary_get_books_def outcome_of_def)

subsection \<open>The sorted view\<close>

lemma do_call_sorted:
  "do_call (SortedViewLibrary lower inner) c w =
     (sorted_outcome lower (fst (do_call inner c w)), snd (do_call inner c w))"
  by (cases c)
     (auto simp: SortedViewLibrary_def SortedViewLibrary_add_book_def
        SortedViewLibrary_remove_book_def SortedViewLibrary_get_books_def outcome_of_def
        split: prod.splits sum.splits)

lemma run_sorted:
  "run (SortedViewLibrary lower inner) cs w =
     (map (sorted_outcome lower) (fst (run inner cs w)), snd (run inner cs w))"
  by (induction cs arbitrary: w) (auto simp: do_call_sorted split: prod.splits)

lemma key_order:
  "sort_key_of lower a \<le> sort_key_of lower b \<longleftrightarrow>
     lower (title a) < lower (title b) \<or> (lower (title a) = lower (title b) \<and> year a \<le> year b)"
  by (auto simp: sort_key_of_def)

lemmas eval_store =
  InMemoryLibrary_def InMemoryLibrary_add_book_def InMemoryLibrary_get_books_def
  remove_book_cases del_at_def outcome_of_def

lemma run_example:
  "run (InMemoryLibrary ascii_lower) [Add dune, Add nineteen84, GetBooks, Remove ''dune'', GetBooks]
      \<lparr>store = [], out = []\<rparr>
   = ([Returned_None, Returned_None, Returned_List [dune, nineteen84], Returned_Bool True,
       Returned_List [nineteen84]], \<lparr>store = [nineteen84], out = []\<rparr>)"
  by (simp add: eval_store examples eval_lower)

lemma sorted_example: "sorted_by ascii_lower [dune, nineteen84] = [nineteen84, dune]"
  by (simp add: sorted_by_def sort_key_of_def examples eval_lower)

lemma sorted_single: "sorted_by lower [b] = [b]"
  by (simp add: sorted_by_def)

text \<open>
  Claim C3. For every store \<open>inner\<close> wrapped by \<^verbatim>\<open>SortedViewLibrary\<close>:
  \<^verbatim>\<open>add_book\<close> and \<^verbatim>\<open>remove_book\<close> are those of \<open>inner\<close>, result and state change
  alike; \<^verbatim>\<open>get_books\<close> leaves the world as \<open>inner\<close>'s \<^verbatim>\<open>get_books\<close> leaves it and
  returns \<open>inner\<close>'s list sorted. Hence over every call sequence the outcomes are those
  of \<open>inner\<close> with each returned list sorted, and the final world is the same. The sorted
  list is ascending in the key, a permutation of the list it was made from, and stable;
  the key orders by lower-cased title first and by year among equal titles. Over
  \<^verbatim>\<open>InMemoryLibrary\<close> the stored list itself, and so the insertion order, is untouched.
\<close>

theorem sorted_view_transparent:
  "add_book (SortedViewLibrary lower inner) b w = add_book inner b w
   \<and> remove_book (SortedViewLibrary lower inner) t w = remove_book inner t w
   \<and> get_books (SortedViewLibrary lower inner) w =
       (case get_books inner w of
          (Inl e, w') \<Rightarrow> (Inl e, w')
        | (Inr bs, w') \<Rightarrow> (Inr (sorted_by lower bs), w'))
   \<and> run (SortedViewLibrary lower inner) cs w =
       (map (sorted_outcome lower) (fst (run inner cs w)), snd (run inner cs w))
   \<and> sorted (map (sort_key_of lower) (sorted_by lower bs))
   \<and> mset (sorted_by lower bs) = mset bs
   \<and> filter (\<lambda>x. sort_key_of lower x = k) (sorted_by lower bs)
       = filter (\<lambda>x. sort_key_of lower x = k) bs
   \<and> (sort_key_of lower x \<le> sort_key_of lower y) =
       (lower (title x) < lower (title y)
        \<or> lower (title x) = lower (title y) \<and> year x \<le> year y)
   \<and> get_books (SortedViewLibrary lower (InMemoryLibrary lower)) v
       = (Inr (sorted_by lower (store v)), v)"
proof -
  have "get_books (SortedViewLibrary lower (InMemoryLibrary lower)) v
       = (Inr (sorted_by lower (store v)), v)"
    by (simp add: SortedViewLibrary_def SortedViewLibrary_get_books_def InMemoryLibrary_def
          InMemoryLibrary_get_books_def)
  moreover have "filter (\<lambda>x. sort_key_of lower x = k) (sorted_by lower bs)
       = filter (\<lambda>x. sort_key_of lower x = k) bs"
    unfolding sorted_by_def by (rule sort_key_stable)
  moreover have "sorted (map (sort_key_of lower) (sorted_by lower bs))"
    by (simp add: sorted_by_def)
  moreover have "mset (sorted_by lower bs) = mset bs"
    by (simp add: sorted_by_def)
  ultimately show ?thesis
    using run_sorted [of lower inner cs w] key_order [of lower x y]
    by (simp add: SortedViewLibrary_def SortedViewLibrary_add_book_def
          SortedViewLibrary_remove_book_def SortedViewLibrary_get_books_def)
qed

theorem sorted_view_transparent_witness:
  "run (SortedViewLibrary ascii_lower (InMemoryLibrary ascii_lower))
      [Add dune, Add nineteen84, GetBooks, Remove ''dune'', GetBooks] \<lparr>store = [], out = []\<rparr>
   = ([Returned_None, Returned_None, Returned_List [nineteen84, dune], Returned_Bool True,
       Returned_List [nineteen84]], \<lparr>store = [nineteen84], out = []\<rparr>)"
proof -
  let ?cs = "[Add dune, Add nineteen84, GetBooks, Remove ''dune'', GetBooks]"
  let ?w = "\<lparr>store = [], out = []\<rparr> :: book list world"
  have "run (SortedViewLibrary ascii_lower (InMemoryLibrary ascii_lower)) ?cs ?w =
      (map (sorted_outcome ascii_lower) (fst (run (InMemoryLibrary ascii_lower) ?cs ?w)),
       snd (run (InMemoryLibrary ascii_lower) ?cs ?w))"
    using sorted_view_transparent [where lower = ascii_lower
        and inner = "InMemoryLibrary ascii_lower" and cs = ?cs and w = ?w,
        THEN conjunct2, THEN conjunct2, THEN conjunct2, THEN conjunct1]
    by this
  then show ?thesis
    by (simp only: run_example fst_conv snd_conv list.map sorted_outcome.simps
          sorted_example sorted_single)
qed

subsection \<open>Rendering a year\<close>

text \<open>
  The number of characters of \<open>str_nat n\<close> is the number of decimal digits of \<open>n\<close>, so an
  integer renders exactly when its absolute value is below \<open>10 ^ 4300\<close>.
\<close>

lemma str_nat_length_pos: "0 < length (str_nat n)"
  by (subst str_nat.simps) simp

lemma str_nat_length: "0 < k \<Longrightarrow> length (str_nat n) \<le> k \<longleftrightarrow> n < 10 ^ k"
proof (induction n arbitrary: k rule: str_nat.induct)
  case (1 n)
  show ?case
  proof (cases "n < 10")
    case True
    have "(10::nat) ^ 1 \<le> 10 ^ k"
      using "1.prems" by (intro power_increasing) simp_all
    with True have "n < 10 ^ k" by simp
    moreover from True have "length (str_nat n) = 1"
      by (subst str_nat.simps) simp
    ultimately show ?thesis using "1.prems" by simp
  next
    case False
    then have len: "length (str_nat n) = Suc (length (str_nat (n div 10)))"
      by (subst str_nat.simps) simp
    show ?thesis
    proof (cases k)
      case 0
      with "1.prems" show ?thesis by simp
    next
      case (Suc j)
      show ?thesis
      proof (cases "j = 0")
        case True
        with Suc False len str_nat_length_pos [of "n div 10"] show ?thesis by simp
      next
        case j: False
        then have "length (str_nat (n div 10)) \<le> j \<longleftrightarrow> n div 10 < 10 ^ j"
          using "1.IH" [of j] False by simp
        moreover have "n div 10 < 10 ^ j \<longleftrightarrow> n < 10 ^ Suc j"
          by (simp add: div_less_iff_less_mult mult.commute)
        ultimately show ?thesis using len Suc by simp
      qed
    qed
  qed
qed

lemma renders_iff: "renders i \<longleftrightarrow> \<bar>i\<bar> < 10 ^ int_max_str_digits"
proof -
  have "0 < int_max_str_digits" by (simp add: int_max_str_digits_def)
  then have "renders i \<longleftrightarrow> nat \<bar>i\<bar> < 10 ^ int_max_str_digits"
    unfolding renders_def by (rule str_nat_length)
  also have "\<dots> \<longleftrightarrow> \<bar>i\<bar> < 10 ^ int_max_str_digits"
    by (simp add: nat_less_iff)
  finally show ?thesis .
qed

lemma big_not_renders: "\<not> renders (year big)"
  by (simp add: renders_iff big_def)

lemma book_str_big: "book_str big = Inl limit_error"
  using big_not_renders by (simp add: book_str_def str_int_def)

lemmas eval_str = book_str_def str_int_def renders_def int_max_str_digits_def str_nat.simps
  digit_char_def

lemma book_str_dune:
  "book_str dune =
     Inr (''Title: '' @ [CHR 0x22] @ ''Dune'' @ [CHR 0x22] @ '', Author: Herbert, Year: 1965'')"
  by (simp add: eval_str examples)

subsection \<open>The logging decorator\<close>

lemma do_call_out:
  "do_call (InMemoryLibrary lower) c (w\<lparr>out := ls\<rparr>) =
     (fst (do_call (InMemoryLibrary lower) c w), (snd (do_call (InMemoryLibrary lower) c w))\<lparr>out := ls\<rparr>)"
  by (cases c)
     (auto simp: InMemoryLibrary_def InMemoryLibrary_add_book_def InMemoryLibrary_get_books_def
        remove_book_cases outcome_of_def split: option.splits)

lemma do_call_keeps_out:
  "out (snd (do_call (InMemoryLibrary lower) c w)) = out w"
  by (cases c)
     (auto simp: InMemoryLibrary_def InMemoryLibrary_add_book_def InMemoryLibrary_get_books_def
        remove_book_cases outcome_of_def split: option.splits)

lemma renders_book_str: "renders (year b) \<Longrightarrow> \<exists>s. book_str b = Inr s"
  by (simp add: book_str_def str_int_def)

lemma not_renders_book_str: "\<not> renders (year b) \<Longrightarrow> book_str b = Inl limit_error"
  by (simp add: book_str_def str_int_def)

lemma do_call_logging:
  assumes "renderable c"
  shows "do_call (LoggingLibraryDecorator (InMemoryLibrary lower)) c w =
     (fst (do_call (InMemoryLibrary lower) c w),
      (snd (do_call (InMemoryLibrary lower) c w))\<lparr>out := out w @ audit_line c\<rparr>)"
proof (cases c)
  case (Add b)
  with assms obtain s where "book_str b = Inr s"
    using renders_book_str [of b] by auto
  with Add show ?thesis
    by (simp add: LoggingLibraryDecorator_def LoggingLibraryDecorator_add_book_def print_def
          InMemoryLibrary_def InMemoryLibrary_add_book_def outcome_of_def)
next
  case (Remove t)
  then show ?thesis
    by (simp add: LoggingLibraryDecorator_def LoggingLibraryDecorator_remove_book_def print_def
          InMemoryLibrary_def remove_book_cases outcome_of_def split: option.splits)
next
  case GetBooks
  then show ?thesis
    by (simp add: LoggingLibraryDecorator_def LoggingLibraryDecorator_get_books_def
          InMemoryLibrary_def InMemoryLibrary_get_books_def outcome_of_def)
qed

lemma run_out:
  "run (InMemoryLibrary lower) cs (w\<lparr>out := ls\<rparr>) =
     (fst (run (InMemoryLibrary lower) cs w), (snd (run (InMemoryLibrary lower) cs w))\<lparr>out := ls\<rparr>)"
proof (induction cs arbitrary: w)
  case Nil
  then show ?case by simp
next
  case (Cons c cs)
  show ?case
    by (simp add: do_call_out Cons.IH split: prod.splits)
qed

lemma run_keeps_out: "out (snd (run (InMemoryLibrary lower) cs w)) = out w"
proof (induction cs arbitrary: w)
  case Nil
  then show ?case by simp
next
  case (Cons c cs)
  have "snd (run (InMemoryLibrary lower) (c # cs) w) =
      snd (run (InMemoryLibrary lower) cs (snd (do_call (InMemoryLibrary lower) c w)))"
    by (simp split: prod.splits)
  then show ?case
    by (simp add: Cons.IH do_call_keeps_out)
qed

lemma run_logging:
  "list_all renderable cs \<Longrightarrow>
   run (LoggingLibraryDecorator (InMemoryLibrary lower)) cs w =
     (fst (run (InMemoryLibrary lower) cs w),
      (snd (run (InMemoryLibrary lower) cs w))\<lparr>out := out w @ audit_lines cs\<rparr>)"
proof (induction cs arbitrary: w)
  case Nil
  then show ?case by (simp add: audit_lines_def)
next
  case (Cons c cs)
  then have c: "renderable c" and cs: "list_all renderable cs" by simp_all
  let ?p = "do_call (InMemoryLibrary lower) c w"
  have "run (LoggingLibraryDecorator (InMemoryLibrary lower)) (c # cs) w =
      (fst ?p # fst (run (LoggingLibraryDecorator (InMemoryLibrary lower)) cs ((snd ?p)\<lparr>out := out w @ audit_line c\<rparr>)),
       snd (run (LoggingLibraryDecorator (InMemoryLibrary lower)) cs ((snd ?p)\<lparr>out := out w @ audit_line c\<rparr>)))"
    by (simp add: do_call_logging [OF c] split: prod.splits)
  also have "\<dots> = (fst ?p # fst (run (InMemoryLibrary lower) cs (snd ?p)),
       (snd (run (InMemoryLibrary lower) cs (snd ?p)))\<lparr>out := out w @ audit_lines (c # cs)\<rparr>)"
    by (simp add: Cons.IH [OF cs] run_out audit_lines_def)
  also have "\<dots> = (fst (run (InMemoryLibrary lower) (c # cs) w),
      (snd (run (InMemoryLibrary lower) (c # cs) w))\<lparr>out := out w @ audit_lines (c # cs)\<rparr>)"
    by (simp split: prod.splits)
  finally show ?case .
qed

lemma logging_add_raises:
  "\<not> renders (year b) \<Longrightarrow>
     add_book (LoggingLibraryDecorator inner) b w = (Inl limit_error, w)"
  by (simp add: LoggingLibraryDecorator_def LoggingLibraryDecorator_add_book_def
        not_renders_book_str)

lemma run_example_2:
  "run (InMemoryLibrary ascii_lower) [Add dune, GetBooks, Remove ''DUNE'', Remove ''DUNE'']
      \<lparr>store = [], out = []\<rparr>
   = ([Returned_None, Returned_List [dune], Returned_Bool True, Returned_Bool False],
      \<lparr>store = [], out = []\<rparr>)"
  by (simp add: eval_store examples eval_lower)

lemma audit_example:
  "audit_lines [Add dune, GetBooks, Remove ''DUNE'', Remove ''DUNE''] =
     [''[LOG] add: Title: '' @ [CHR 0x22] @ ''Dune'' @ [CHR 0x22] @ '', Author: Herbert, Year: 1965'',
      ''[LOG] remove: '' @ [CHR 0x22] @ ''DUNE'' @ [CHR 0x22],
      ''[LOG] remove: '' @ [CHR 0x22] @ ''DUNE'' @ [CHR 0x22]]"
  by (simp add: audit_lines_def eval_str examples)

lemma logging_example:
  "list_all renderable [Add dune, GetBooks, Remove ''DUNE'', Remove ''DUNE'']
   \<and> run (LoggingLibraryDecorator (InMemoryLibrary ascii_lower))
      [Add dune, GetBooks, Remove ''DUNE'', Remove ''DUNE''] \<lparr>store = [], out = []\<rparr>
   = ([Returned_None, Returned_List [dune], Returned_Bool True, Returned_Bool False],
      \<lparr>store = [],
       out = [''[LOG] add: Title: '' @ [CHR 0x22] @ ''Dune'' @ [CHR 0x22] @ '', Author: Herbert, Year: 1965'',
              ''[LOG] remove: '' @ [CHR 0x22] @ ''DUNE'' @ [CHR 0x22],
              ''[LOG] remove: '' @ [CHR 0x22] @ ''DUNE'' @ [CHR 0x22]]\<rparr>)"
proof -
  let ?cs = "[Add dune, GetBooks, Remove ''DUNE'', Remove ''DUNE'']"
  let ?w = "\<lparr>store = [], out = []\<rparr> :: book list world"
  have r: "list_all renderable ?cs"
    by (simp add: renders_def int_max_str_digits_def str_nat.simps examples)
  from run_logging [OF r, of ascii_lower ?w]
  have "run (LoggingLibraryDecorator (InMemoryLibrary ascii_lower)) ?cs ?w =
     ([Returned_None, Returned_List [dune], Returned_Bool True, Returned_Bool False],
      ?w\<lparr>out := out ?w @ audit_lines ?cs\<rparr>)"
    by (simp only: run_example_2 fst_conv snd_conv)
  then have "run (LoggingLibraryDecorator (InMemoryLibrary ascii_lower)) ?cs ?w =
     ([Returned_None, Returned_List [dune], Returned_Bool True, Returned_Bool False],
      \<lparr>store = [],
       out = [''[LOG] add: Title: '' @ [CHR 0x22] @ ''Dune'' @ [CHR 0x22] @ '', Author: Herbert, Year: 1965'',
              ''[LOG] remove: '' @ [CHR 0x22] @ ''DUNE'' @ [CHR 0x22],
              ''[LOG] remove: '' @ [CHR 0x22] @ ''DUNE'' @ [CHR 0x22]]\<rparr>)"
    by (simp only: audit_example) simp
  with r show ?thesis by (simp only: simp_thms)
qed


subsection \<open>The decorator chains\<close>

text \<open>
  Over a chain, \<^verbatim>\<open>add_book\<close> appends the book when the book renders or no decorator
  logs, and otherwise raises with the world unchanged; \<^verbatim>\<open>remove_book\<close> and
  \<^verbatim>\<open>get_books\<close> never raise.
\<close>

lemma chain_add_book:
  assumes "renders (year b) \<or> \<not> logs c"
  shows "\<exists>ls. add_book (build lower c) b w =
           (Inr (), w\<lparr>store := store w @ [b], out := out w @ ls\<rparr>)"
  using assms
proof (induction c arbitrary: w)
  case Base
  have "add_book (build lower Base) b w = (Inr (), w\<lparr>store := store w @ [b], out := out w @ []\<rparr>)"
    by (simp add: InMemoryLibrary_def InMemoryLibrary_add_book_def)
  then show ?case by blast
next
  case (Logging_over c)
  then have r: "renders (year b)" by simp
  then obtain s where s: "book_str b = Inr s"
    using renders_book_str by blast
  let ?line = "''[LOG] add: '' @ s"
  from r Logging_over.IH [of "print ?line w"] obtain ls where
    "add_book (build lower c) b (print ?line w) =
       (Inr (), (print ?line w)\<lparr>store := store (print ?line w) @ [b], out := out (print ?line w) @ ls\<rparr>)"
    by blast
  with s have "add_book (build lower (Logging_over c)) b w =
      (Inr (), w\<lparr>store := store w @ [b], out := out w @ (?line # ls)\<rparr>)"
    by (simp add: LoggingLibraryDecorator_def LoggingLibraryDecorator_add_book_def print_def)
  then show ?case by blast
next
  case (Sorted_over c)
  then show ?case
    by (simp add: SortedViewLibrary_def SortedViewLibrary_add_book_def)
qed

lemma chain_add_book_raises:
  assumes "\<not> renders (year b)" and "logs c"
  shows "add_book (build lower c) b w = (Inl limit_error, w)"
  using assms(2)
proof (induction c)
  case Base
  then show ?case by simp
next
  case (Logging_over c)
  from assms(1) show ?case by (simp add: logging_add_raises)
next
  case (Sorted_over c)
  then show ?case
    by (simp add: SortedViewLibrary_def SortedViewLibrary_add_book_def)
qed

lemma chain_add_book_either:
  "add_book (build lower c) b w = (Inl limit_error, w) \<or>
   (\<exists>ls. add_book (build lower c) b w =
           (Inr (), w\<lparr>store := store w @ [b], out := out w @ ls\<rparr>))"
  using chain_add_book [of b c lower w] chain_add_book_raises [of b c lower w] by blast

lemma chain_remove_book:
  "\<exists>ls. remove_book (build lower c) t w =
     (fst (InMemoryLibrary_remove_book lower t w),
      w\<lparr>store := store (snd (InMemoryLibrary_remove_book lower t w)), out := out w @ ls\<rparr>)"
proof (induction c arbitrary: w)
  case Base
  have "remove_book (build lower Base) t w =
     (fst (InMemoryLibrary_remove_book lower t w),
      w\<lparr>store := store (snd (InMemoryLibrary_remove_book lower t w)), out := out w @ []\<rparr>)"
    by (simp add: InMemoryLibrary_def remove_book_cases split: option.splits)
  then show ?case by blast
next
  case (Logging_over c)
  let ?line = "''[LOG] remove: '' @ [CHR 0x22] @ t @ [CHR 0x22]"
  let ?w = "print ?line w"
  from Logging_over [of ?w] obtain ls where
    "remove_book (build lower c) t ?w =
     (fst (InMemoryLibrary_remove_book lower t ?w),
      ?w\<lparr>store := store (snd (InMemoryLibrary_remove_book lower t ?w)), out := out ?w @ ls\<rparr>)"
    by blast
  then have "remove_book (build lower (Logging_over c)) t w =
     (fst (InMemoryLibrary_remove_book lower t w),
      w\<lparr>store := store (snd (InMemoryLibrary_remove_book lower t w)), out := out w @ (?line # ls)\<rparr>)"
    by (simp add: LoggingLibraryDecorator_def LoggingLibraryDecorator_remove_book_def print_def
          remove_book_cases split: option.splits)
  then show ?case by blast
next
  case (Sorted_over c)
  then show ?case
    by (simp add: SortedViewLibrary_def SortedViewLibrary_remove_book_def)
qed

lemma chain_get_books: "\<exists>bs. get_books (build lower c) w = (Inr bs, w) \<and> mset bs = mset (store w)"
proof (induction c)
  case Base
  then show ?case by (simp add: InMemoryLibrary_def InMemoryLibrary_get_books_def)
next
  case (Logging_over c)
  then show ?case
    by (simp add: LoggingLibraryDecorator_def LoggingLibraryDecorator_get_books_def)
next
  case (Sorted_over c)
  then obtain bs where "get_books (build lower c) w = (Inr bs, w)" "mset bs = mset (store w)"
    by blast
  then have "get_books (build lower (Sorted_over c)) w = (Inr (sorted_by lower bs), w)
      \<and> mset (sorted_by lower bs) = mset (store w)"
    by (simp add: SortedViewLibrary_def SortedViewLibrary_get_books_def sorted_by_def)
  then show ?case by blast
qed

lemma remove_book_subset:
  "set (store (snd (InMemoryLibrary_remove_book lower t w))) \<subseteq> set (store w)"
  by (auto simp: remove_book_cases del_at_def split: option.splits dest: in_set_takeD in_set_dropD)

subsection \<open>The manager\<close>

lemma parse_year_cases:
  "parse_year int_of v =
     (case int_of v of
        None \<Rightarrow> Inl (ValueError ''Year must be a positive integer.'')
      | Some y \<Rightarrow> if y \<le> 0 then Inl (ValueError ''Year must be a positive integer.'') else Inr y)"
  by (simp add: parse_year_def parse_year_try_def split: option.splits)

lemma parse_year_Inr: "parse_year int_of v = Inr y \<longleftrightarrow> int_of v = Some y \<and> 0 < y"
  by (auto simp: parse_year_cases split: option.splits if_splits)

lemma parse_year_Inl:
  "parse_year int_of v = Inl e \<Longrightarrow> e = ValueError ''Year must be a positive integer.''"
  by (auto simp: parse_year_cases split: option.splits if_splits)

lemma store_print_all: "store (snd (print_all bs w)) = store w"
  by (induction bs arbitrary: w) (simp_all add: print_def split: sum.splits)

lemma manager_add_book_fails:
  "parse_year int_of raw = Inl e \<Longrightarrow> LibraryManager_add_book int_of lib t a raw w = (Inl e, w)"
  by (simp add: LibraryManager_add_book_def)

lemma manager_add_book_chain_ok:
  assumes "int_of raw = Some y" and "0 < y" and "renders y \<or> \<not> logs c"
  shows "\<exists>ls. LibraryManager_add_book int_of (build lower c) t a raw w =
     (Inr (), w\<lparr>store := store w @ [\<lparr>title = t, author = a, year = y\<rparr>],
                 out := out w @ ls @ [''Book added.'']\<rparr>)"
proof -
  from assms have p: "parse_year int_of raw = Inr y" by (simp add: parse_year_Inr)
  from assms(3) have "renders (year \<lparr>title = t, author = a, year = y\<rparr>) \<or> \<not> logs c"
    by simp
  from chain_add_book [OF this, of lower w] obtain ls where
    "add_book (build lower c) \<lparr>title = t, author = a, year = y\<rparr> w =
       (Inr (), w\<lparr>store := store w @ [\<lparr>title = t, author = a, year = y\<rparr>], out := out w @ ls\<rparr>)"
    by blast
  with p have "LibraryManager_add_book int_of (build lower c) t a raw w =
     (Inr (), w\<lparr>store := store w @ [\<lparr>title = t, author = a, year = y\<rparr>],
                 out := out w @ ls @ [''Book added.'']\<rparr>)"
    by (simp add: LibraryManager_add_book_def print_def)
  then show ?thesis by blast
qed

lemma manager_add_book_chain_raises:
  assumes "int_of raw = Some y" and "0 < y" and "\<not> renders y" and "logs c"
  shows "LibraryManager_add_book int_of (build lower c) t a raw w = (Inl limit_error, w)"
proof -
  from assms have p: "parse_year int_of raw = Inr y" by (simp add: parse_year_Inr)
  from assms(3) have "\<not> renders (year \<lparr>title = t, author = a, year = y\<rparr>)"
    by simp
  from chain_add_book_raises [OF this assms(4), of lower w] p show ?thesis
    by (simp add: LibraryManager_add_book_def)
qed

lemma manager_add_book_store:
  "store (snd (LibraryManager_add_book int_of (build lower c) t a raw w)) = store w \<or>
   (\<exists>y. 0 < y \<and> store (snd (LibraryManager_add_book int_of (build lower c) t a raw w)) =
        store w @ [\<lparr>title = t, author = a, year = y\<rparr>])"
proof (cases "parse_year int_of raw")
  case (Inl e)
  then show ?thesis by (simp add: manager_add_book_fails)
next
  case (Inr y)
  then have y: "int_of raw = Some y" "0 < y" by (simp_all add: parse_year_Inr)
  show ?thesis
  proof (cases "renders y \<or> \<not> logs c")
    case True
    from manager_add_book_chain_ok [where int_of = int_of and raw = raw and y = y and c = c
        and lower = lower and t = t and a = a and w = w] y True
    show ?thesis by auto
  next
    case False
    then have "\<not> renders y" "logs c" by simp_all
    with manager_add_book_chain_raises [where int_of = int_of and raw = raw and y = y
        and c = c and lower = lower and t = t and a = a and w = w] y
    show ?thesis by simp
  qed
qed

lemma do_command_positive:
  assumes "years_positive (store w)"
  shows "years_positive (store (snd (do_command int_of (build lower c) cmd w)))"
proof (cases cmd)
  case (Cmd_add t a raw)
  with assms manager_add_book_store [of int_of lower c t a raw w] show ?thesis
    by (auto simp: years_positive_def)
next
  case (Cmd_remove t)
  from chain_remove_book [of lower c t w] obtain ls where
    "remove_book (build lower c) t w =
     (fst (InMemoryLibrary_remove_book lower t w),
      w\<lparr>store := store (snd (InMemoryLibrary_remove_book lower t w)), out := out w @ ls\<rparr>)"
    by blast
  then have "store (snd (do_command int_of (build lower c) cmd w)) =
      store (snd (InMemoryLibrary_remove_book lower t w))"
    using Cmd_remove
    by (cases "fst (InMemoryLibrary_remove_book lower t w)")
       (simp_all add: LibraryManager_remove_book_def print_def)
  with assms remove_book_subset [of lower t w] show ?thesis
    by (auto simp: years_positive_def list_all_iff)
next
  case Cmd_show
  from chain_get_books [of lower c w] obtain bs where
    "get_books (build lower c) w = (Inr bs, w)" by blast
  then have "store (snd (do_command int_of (build lower c) cmd w)) = store w"
    using Cmd_show
    by (simp add: LibraryManager_show_books_def print_def store_print_all)
  with assms show ?thesis by simp
qed

lemma run_commands_positive:
  "years_positive (store w) \<Longrightarrow>
     years_positive (store (run_commands int_of (build lower c) cmds w))"
  by (induction cmds arbitrary: w) (simp_all add: do_command_positive)

text \<open>
  What \<open>ascii_int\<close> returns has at most as many digits as the literal it read, which
  is within the limit: a year that has passed \<^verbatim>\<open>int\<close> renders.
\<close>

lemma digit_val_less: "is_digit c \<Longrightarrow> digit_val c < 10"
  by (auto simp: is_digit_def digit_val_def Let_def)

lemma underscore_not_digit: "\<not> is_digit CHR ''_''"
  by (simp add: is_digit_def)

lemma step_bound:
  fixes acc v m n :: nat
  assumes "v < 10" and "n < (10 * acc + v + 1) * m"
  shows "n < (acc + 1) * (10 * m)"
proof -
  from assms(1) have "10 * acc + v + 1 \<le> (acc + 1) * 10" by simp
  then have "(10 * acc + v + 1) * m \<le> ((acc + 1) * 10) * m"
    by (rule mult_le_mono1)
  with assms(2) have "n < ((acc + 1) * 10) * m"
    by (rule less_le_trans)
  then show ?thesis by (simp only: mult.assoc)
qed

lemma digits_bound:
  "digits acc cs = Some n \<Longrightarrow> n < (acc + 1) * 10 ^ length (filter is_digit cs)"
proof (induction acc cs rule: digits.induct)
  case (1 acc)
  then show ?case by simp
next
  case (2 acc c)
  then have c: "is_digit c" and n: "n = 10 * acc + digit_val c"
    by (simp_all split: if_splits)
  from digit_val_less [OF c] n show ?case using c by simp
next
  case (3 acc c d cs)
  show ?case
  proof (cases "is_digit c")
    case True
    with "3.prems" have "digits (10 * acc + digit_val c) (d # cs) = Some n" by simp
    from "3.IH"(1) [OF True this]
    have "n < (10 * acc + digit_val c + 1) * 10 ^ length (filter is_digit (d # cs))" .
    from step_bound [OF digit_val_less [OF True] this] True show ?thesis by simp
  next
    case False
    with "3.prems" have u: "c = CHR ''_''" and d: "is_digit d"
      and run: "digits (10 * acc + digit_val d) cs = Some n"
      by (simp_all split: if_splits)
    from u d have ud: "c = CHR ''_'' \<and> is_digit d" by simp
    from "3.IH"(2) [OF False ud run]
    have "n < (10 * acc + digit_val d + 1) * 10 ^ length (filter is_digit cs)" .
    from step_bound [OF digit_val_less [OF d] this] False d show ?thesis by simp
  qed
qed

lemma unsigned_bound: "unsigned s = Some n \<Longrightarrow> n < 10 ^ int_max_str_digits"
proof (cases s)
  case Nil
  assume "unsigned s = Some n"
  with Nil show ?thesis by (simp add: unsigned_def)
next
  case (Cons c cs)
  assume "unsigned s = Some n"
  with Cons have c: "is_digit c" and len: "length (filter is_digit s) \<le> int_max_str_digits"
    and run: "digits (digit_val c) cs = Some n"
    by (simp_all add: unsigned_def split: if_splits)
  from digits_bound [OF run] have "n < (digit_val c + 1) * 10 ^ length (filter is_digit cs)" .
  moreover from digit_val_less [OF c] have "digit_val c + 1 \<le> 10" by simp
  then have "(digit_val c + 1) * 10 ^ length (filter is_digit cs)
      \<le> 10 * 10 ^ length (filter is_digit cs)"
    by (rule mult_le_mono1)
  ultimately have "n < 10 * 10 ^ length (filter is_digit cs)"
    by (rule less_le_trans)
  then have "n < 10 ^ length (filter is_digit s)"
    using Cons c by simp
  also from len have "(10::nat) ^ length (filter is_digit s) \<le> 10 ^ int_max_str_digits"
    by (intro power_increasing) simp_all
  finally show ?thesis .
qed

lemma ascii_int_renders: "ascii_int s = Some y \<Longrightarrow> renders y"
proof -
  assume a: "ascii_int s = Some y"
  then obtain u n where "unsigned u = Some n" and y: "y = int n \<or> y = - int n"
    by (auto simp: ascii_int_def split: list.splits if_splits)
  then have "n < 10 ^ int_max_str_digits" by (simp add: unsigned_bound)
  then have "int n < 10 ^ int_max_str_digits"
    by (metis of_nat_less_iff of_nat_numeral of_nat_power)
  with y show ?thesis by (auto simp: renders_iff)
qed

lemmas eval_int = ascii_int_def strip_def is_space_def is_digit_def digit_val_def unsigned_def
  int_max_str_digits_def

lemma ascii_int_examples:
  "ascii_int ''0'' = Some 0" "ascii_int ''-3'' = Some (- 3)" "ascii_int ''abc'' = None"
  "ascii_int ''1999'' = Some 1999" "ascii_int ''1965'' = Some 1965" "ascii_int ''1949'' = Some 1949"
  by (simp_all add: eval_int)

text \<open>
  Claim C1. For every title, author and year string, \<^verbatim>\<open>LibraryManager.add_book\<close> raises
  the \<open>ValueError\<close> whose message is, in the code's words, \<^verbatim>\<open>Year must be a positive
  integer.\<close> when \<^verbatim>\<open>int\<close> fails on the year string or yields a value \<open>\<le> 0\<close>, and then
  leaves the world as it was; when \<^verbatim>\<open>int\<close> yields \<open>y > 0\<close> it calls \<^verbatim>\<open>add_book\<close> of the
  held store with the book of that title, author and year \<open>y\<close>, which over
  \<^verbatim>\<open>InMemoryLibrary\<close> succeeds and appends that book. Over a decorator chain it succeeds
  and appends the book as well, whenever \<open>y\<close> renders or the chain does not log
  (otherwise the logging decorator raises and the world is unchanged); a year returned
  by \<open>ascii_int\<close> always renders, so with it every chain succeeds. In particular
  \<^verbatim>\<open>"0"\<close>, \<^verbatim>\<open>"-3"\<close> and \<^verbatim>\<open>"abc"\<close> fail, and \<^verbatim>\<open>"1999"\<close> adds a book with year 1999.
\<close>

theorem add_book_validates_year:
  "(int_of raw = None \<or> (\<exists>y. int_of raw = Some y \<and> y \<le> 0) \<longrightarrow>
      LibraryManager_add_book int_of lib t a raw w =
        (Inl (ValueError ''Year must be a positive integer.''), w))
   \<and> (int_of raw = Some y \<and> 0 < y \<longrightarrow>
        LibraryManager_add_book int_of lib t a raw w =
          (case add_book lib \<lparr>title = t, author = a, year = y\<rparr> w of
             (Inl e, w') \<Rightarrow> (Inl e, w')
           | (Inr u, w') \<Rightarrow> (Inr (), print ''Book added.'' w'))
        \<and> LibraryManager_add_book int_of (InMemoryLibrary lower) t a raw v =
          (Inr (), print ''Book added.'' (v\<lparr>store := store v @ [\<lparr>title = t, author = a, year = y\<rparr>]\<rparr>))
        \<and> (renders y \<or> \<not> logs c \<longrightarrow>
             fst (LibraryManager_add_book int_of (build lower c) t a raw v) = Inr ()
             \<and> store (snd (LibraryManager_add_book int_of (build lower c) t a raw v)) =
                 store v @ [\<lparr>title = t, author = a, year = y\<rparr>])
        \<and> (\<not> renders y \<and> logs c \<longrightarrow>
             LibraryManager_add_book int_of (build lower c) t a raw v = (Inl limit_error, v)))
   \<and> (ascii_int raw = Some y \<and> 0 < y \<longrightarrow>
        fst (LibraryManager_add_book ascii_int (build lower c) t a raw v) = Inr ()
        \<and> store (snd (LibraryManager_add_book ascii_int (build lower c) t a raw v)) =
            store v @ [\<lparr>title = t, author = a, year = y\<rparr>])
   \<and> LibraryManager_add_book ascii_int lib t a ''0'' w =
        (Inl (ValueError ''Year must be a positive integer.''), w)
   \<and> LibraryManager_add_book ascii_int lib t a ''-3'' w =
        (Inl (ValueError ''Year must be a positive integer.''), w)
   \<and> LibraryManager_add_book ascii_int lib t a ''abc'' w =
        (Inl (ValueError ''Year must be a positive integer.''), w)
   \<and> LibraryManager_add_book ascii_int (InMemoryLibrary lower) t a ''1999'' v =
        (Inr (), print ''Book added.'' (v\<lparr>store := store v @ [\<lparr>title = t, author = a, year = 1999\<rparr>]\<rparr>))"
proof -
  have bad: "LibraryManager_add_book f lib t a r w =
        (Inl (ValueError ''Year must be a positive integer.''), w)"
    if "f r = None \<or> (\<exists>y. f r = Some y \<and> y \<le> 0)" for f r
    using that by (auto simp: LibraryManager_add_book_def parse_year_cases)
  have good: "LibraryManager_add_book f (InMemoryLibrary lower) t a r v =
          (Inr (), print ''Book added.'' (v\<lparr>store := store v @ [\<lparr>title = t, author = a, year = z\<rparr>]\<rparr>))"
    if "f r = Some z" "0 < z" for f r z
    using that
    by (simp add: LibraryManager_add_book_def parse_year_cases InMemoryLibrary_def
          InMemoryLibrary_add_book_def)
  have gen: "LibraryManager_add_book int_of lib t a raw w =
          (case add_book lib \<lparr>title = t, author = a, year = y\<rparr> w of
             (Inl e, w') \<Rightarrow> (Inl e, w')
           | (Inr u, w') \<Rightarrow> (Inr (), print ''Book added.'' w'))"
    if "int_of raw = Some y" "0 < y"
    using that by (simp add: LibraryManager_add_book_def parse_year_cases)
  have chain: "fst (LibraryManager_add_book f (build lower c) t a raw v) = Inr ()
        \<and> store (snd (LibraryManager_add_book f (build lower c) t a raw v)) =
            store v @ [\<lparr>title = t, author = a, year = y\<rparr>]"
    if "f raw = Some y" "0 < y" "renders y \<or> \<not> logs c" for f
    using that manager_add_book_chain_ok [where int_of = f and raw = raw and y = y
        and lower = lower and c = c and t = t and a = a and w = v]
    by auto
  have raises: "LibraryManager_add_book int_of (build lower c) t a raw v = (Inl limit_error, v)"
    if "int_of raw = Some y" "0 < y" "\<not> renders y" "logs c"
    using that by (rule manager_add_book_chain_raises)
  have ascii: "fst (LibraryManager_add_book ascii_int (build lower c) t a raw v) = Inr ()
        \<and> store (snd (LibraryManager_add_book ascii_int (build lower c) t a raw v)) =
            store v @ [\<lparr>title = t, author = a, year = y\<rparr>]"
    if "ascii_int raw = Some y" "0 < y"
    using that chain [of ascii_int] ascii_int_renders [of raw y] by blast
  show ?thesis
    using bad [of int_of raw] bad [of ascii_int "''0''"] bad [of ascii_int "''-3''"]
      bad [of ascii_int "''abc''"] good [of ascii_int "''1999''" 1999] good [of int_of raw y]
      gen chain [of int_of] raises ascii
    by (simp add: ascii_int_examples)
qed

theorem add_book_validates_year_witness:
  "ascii_int ''abc'' = None
   \<and> LibraryManager_add_book ascii_int (InMemoryLibrary ascii_lower) ''Dune'' ''Herbert'' ''abc''
        \<lparr>store = [], out = []\<rparr>
      = (Inl (ValueError ''Year must be a positive integer.''), \<lparr>store = [], out = []\<rparr>)
   \<and> ascii_int ''1999'' = Some 1999
   \<and> LibraryManager_add_book ascii_int (InMemoryLibrary ascii_lower) ''Dune'' ''Herbert'' ''1999''
        \<lparr>store = [], out = []\<rparr>
      = (Inr (), \<lparr>store = [\<lparr>title = ''Dune'', author = ''Herbert'', year = 1999\<rparr>],
                  out = [''Book added.'']\<rparr>)"
proof -
  let ?w = "\<lparr>store = [], out = []\<rparr> :: book list world"
  have none: "ascii_int ''abc'' = None" and some: "ascii_int ''1999'' = Some 1999"
    by (simp_all add: ascii_int_examples)
  from none have rejected:
    "LibraryManager_add_book ascii_int (InMemoryLibrary ascii_lower) ''Dune'' ''Herbert'' ''abc'' ?w
      = (Inl (ValueError ''Year must be a positive integer.''), ?w)"
    using add_book_validates_year [where int_of = ascii_int and raw = "''abc''"
        and lib = "InMemoryLibrary ascii_lower" and t = "''Dune''" and a = "''Herbert''"
        and w = ?w, THEN conjunct1]
    by simp
  from some have prem: "ascii_int ''1999'' = Some 1999 \<and> (0::int) < 1999"
    by simp
  have accepted:
    "LibraryManager_add_book ascii_int (InMemoryLibrary ascii_lower) ''Dune'' ''Herbert'' ''1999'' ?w
      = (Inr (), print ''Book added.''
           (?w\<lparr>store := store ?w @ [\<lparr>title = ''Dune'', author = ''Herbert'', year = 1999\<rparr>]\<rparr>))"
    by (rule add_book_validates_year [where int_of = ascii_int and raw = "''1999''" and y = 1999
        and lower = ascii_lower and t = "''Dune''" and a = "''Herbert''"
        and v = ?w and w = ?w and lib = "InMemoryLibrary ascii_lower" and c = Base,
        THEN conjunct2, THEN conjunct1, THEN mp, OF prem, THEN conjunct2, THEN conjunct1])
  from rejected accepted none some show ?thesis
    by (simp add: print_def)
qed

text \<open>
  Claim C9. When the year string fails validation, \<^verbatim>\<open>LibraryManager.add_book\<close> returns
  the error with the world exactly as before the call, over any held store: no book is
  built and nothing is added or printed. Over a decorator chain every error of
  \<^verbatim>\<open>add_book\<close> leaves the world unchanged: it is either this validation error or, for
  a year that does not render under a logging decorator, the error of the rendering.
  With \<open>ascii_int\<close>, whose years render, it is always the validation error.
\<close>

theorem add_book_atomic_on_validation_error:
  "(parse_year int_of raw = Inl e \<longrightarrow>
      LibraryManager_add_book int_of lib t a raw w = (Inl e, w))
   \<and> (fst (LibraryManager_add_book int_of (build lower c) t a raw v) = Inl e \<longrightarrow>
        snd (LibraryManager_add_book int_of (build lower c) t a raw v) = v
        \<and> (e = ValueError ''Year must be a positive integer.'' \<and> parse_year int_of raw = Inl e
           \<or> e = limit_error \<and> logs c \<and> (\<exists>y. parse_year int_of raw = Inr y \<and> \<not> renders y)))
   \<and> (fst (LibraryManager_add_book ascii_int (build lower c) t a raw v) = Inl e \<longrightarrow>
        e = ValueError ''Year must be a positive integer.''
        \<and> parse_year ascii_int raw = Inl e
        \<and> snd (LibraryManager_add_book ascii_int (build lower c) t a raw v) = v)"
proof -
  have fails: "LibraryManager_add_book int_of lib t a raw w = (Inl e, w)"
    if "parse_year int_of raw = Inl e"
    using that by (rule manager_add_book_fails)
  have chain: "snd (LibraryManager_add_book f (build lower c) t a raw v) = v
        \<and> (e = ValueError ''Year must be a positive integer.'' \<and> parse_year f raw = Inl e
           \<or> e = limit_error \<and> logs c \<and> (\<exists>y. parse_year f raw = Inr y \<and> \<not> renders y))"
    if raised: "fst (LibraryManager_add_book f (build lower c) t a raw v) = Inl e" for f
  proof (cases "parse_year f raw")
    case (Inl e')
    with raised have "e' = e" by (simp add: manager_add_book_fails)
    with Inl parse_year_Inl [of f raw e] show ?thesis
      by (simp add: manager_add_book_fails)
  next
    case (Inr y)
    then have y: "f raw = Some y" "0 < y" by (simp_all add: parse_year_Inr)
    show ?thesis
    proof (cases "renders y \<or> \<not> logs c")
      case True
      from manager_add_book_chain_ok [where int_of = f and raw = raw and y = y and c = c
          and lower = lower and t = t and a = a and w = v] y True raised
      show ?thesis by auto
    next
      case False
      then have n: "\<not> renders y" "logs c" by simp_all
      with manager_add_book_chain_raises [where int_of = f and raw = raw and y = y
          and c = c and lower = lower and t = t and a = a and w = v] y
      have "LibraryManager_add_book f (build lower c) t a raw v = (Inl limit_error, v)"
        by simp
      with raised n Inr show ?thesis by auto
    qed
  qed
  have ascii: "e = ValueError ''Year must be a positive integer.''
        \<and> parse_year ascii_int raw = Inl e
        \<and> snd (LibraryManager_add_book ascii_int (build lower c) t a raw v) = v"
    if raised: "fst (LibraryManager_add_book ascii_int (build lower c) t a raw v) = Inl e"
  proof -
    have "renders y" if "parse_year ascii_int raw = Inr y" for y
      using that ascii_int_renders [of raw y] by (simp add: parse_year_Inr)
    with chain [OF raised] show ?thesis by blast
  qed
  from fails chain [of int_of] ascii show ?thesis by blast
qed

theorem add_book_atomic_on_validation_error_witness:
  "parse_year ascii_int ''abc'' = Inl (ValueError ''Year must be a positive integer.'')
   \<and> LibraryManager_add_book ascii_int main_chain ''Dune'' ''Herbert'' ''abc''
        \<lparr>store = [dune], out = []\<rparr>
      = (Inl (ValueError ''Year must be a positive integer.''), \<lparr>store = [dune], out = []\<rparr>)"
proof -
  have p: "parse_year ascii_int ''abc'' = Inl (ValueError ''Year must be a positive integer.'')"
    by (simp add: parse_year_cases ascii_int_examples)
  with add_book_atomic_on_validation_error [where int_of = ascii_int and raw = "''abc''"
      and e = "ValueError ''Year must be a positive integer.''" and lib = main_chain
      and t = "''Dune''" and a = "''Herbert''" and w = "\<lparr>store = [dune], out = []\<rparr>",
      THEN conjunct1]
  show ?thesis by simp
qed

text \<open>
  Claim C7. A year that passes \<^verbatim>\<open>_parse_year\<close> is positive, and so the manager keeps
  the invariant that every stored book has a positive year: if it holds of the store
  (as it does of the empty one), it holds after any sequence of manager commands over
  any decorator chain. The store itself validates nothing: its \<^verbatim>\<open>add_book\<close> appends
  whatever book it is given.
\<close>

theorem manager_keeps_years_positive:
  "(parse_year int_of v = Inr y \<longrightarrow> 0 < y)
   \<and> (years_positive (store w) \<longrightarrow>
        years_positive (store (run_commands int_of (build lower c) cmds w)))
   \<and> InMemoryLibrary_add_book b u = (Inr (), u\<lparr>store := store u @ [b]\<rparr>)"
  by (simp add: parse_year_Inr run_commands_positive InMemoryLibrary_add_book_def)

lemma commands_example:
  "store (run_commands ascii_int main_chain
      [Cmd_add ''Dune'' ''Herbert'' ''1965'', Cmd_add ''Emma'' ''Austen'' ''0'',
       Cmd_add ''1984'' ''Orwell'' ''1949'', Cmd_show, Cmd_remove ''dune'']
      \<lparr>store = [], out = []\<rparr>) = [nineteen84]"
  by (simp add: main_chain_def LibraryManager_add_book_def LibraryManager_remove_book_def
        LibraryManager_show_books_def parse_year_cases ascii_int_examples
        SortedViewLibrary_def SortedViewLibrary_add_book_def SortedViewLibrary_remove_book_def
        SortedViewLibrary_get_books_def LoggingLibraryDecorator_def
        LoggingLibraryDecorator_add_book_def LoggingLibraryDecorator_remove_book_def
        LoggingLibraryDecorator_get_books_def InMemoryLibrary_def InMemoryLibrary_add_book_def
        InMemoryLibrary_get_books_def remove_book_cases del_at_def print_def eval_str
        sorted_by_def sort_key_of_def
        examples eval_lower)

theorem manager_keeps_years_positive_witness:
  "years_positive (store (\<lparr>store = [], out = []\<rparr> :: book list world))
   \<and> store (run_commands ascii_int main_chain
      [Cmd_add ''Dune'' ''Herbert'' ''1965'', Cmd_add ''Emma'' ''Austen'' ''0'',
       Cmd_add ''1984'' ''Orwell'' ''1949'', Cmd_show, Cmd_remove ''dune'']
      \<lparr>store = [], out = []\<rparr>) = [nineteen84]
   \<and> years_positive (store (run_commands ascii_int main_chain
      [Cmd_add ''Dune'' ''Herbert'' ''1965'', Cmd_add ''Emma'' ''Austen'' ''0'',
       Cmd_add ''1984'' ''Orwell'' ''1949'', Cmd_show, Cmd_remove ''dune'']
      \<lparr>store = [], out = []\<rparr>))"
proof -
  have 0: "years_positive (store (\<lparr>store = [], out = []\<rparr> :: book list world))"
    by (simp add: years_positive_def)
  with manager_keeps_years_positive [where int_of = ascii_int and lower = ascii_lower
      and c = "Sorted_over (Logging_over Base)" and w = "\<lparr>store = [], out = []\<rparr>"
      and cmds = "[Cmd_add ''Dune'' ''Herbert'' ''1965'', Cmd_add ''Emma'' ''Austen'' ''0'',
       Cmd_add ''1984'' ''Orwell'' ''1949'', Cmd_show, Cmd_remove ''dune'']",
      THEN conjunct2, THEN conjunct1]
  have "years_positive (store (run_commands ascii_int main_chain
      [Cmd_add ''Dune'' ''Herbert'' ''1965'', Cmd_add ''Emma'' ''Austen'' ''0'',
       Cmd_add ''1984'' ''Orwell'' ''1949'', Cmd_show, Cmd_remove ''dune'']
      \<lparr>store = [], out = []\<rparr>))"
    unfolding main_chain_def by (rule mp)
  with 0 commands_example show ?thesis by (simp only: simp_thms)
qed

subsection \<open>Snapshots\<close>

text \<open>
  The operations on the heap compute, in the cell of \<^verbatim>\<open>self._books\<close>, what the
  operations on the world compute in \<open>store\<close>.
\<close>

lemma heap_add_book_store:
  "self < length h \<Longrightarrow>
     heap_add_book self b h ! self =
       store (snd (InMemoryLibrary_add_book b \<lparr>store = h ! self, out = ls\<rparr>))"
  by (simp add: heap_add_book_def InMemoryLibrary_add_book_def)

lemma heap_remove_book_store:
  "self < length h \<Longrightarrow>
     Inr (fst (heap_remove_book lower self t h)) =
       fst (InMemoryLibrary_remove_book lower t \<lparr>store = h ! self, out = ls\<rparr>)
     \<and> snd (heap_remove_book lower self t h) ! self =
       store (snd (InMemoryLibrary_remove_book lower t \<lparr>store = h ! self, out = ls\<rparr>))"
  by (simp add: heap_remove_book_def remove_book_cases split: option.splits)

lemma heap_get_books_store:
  "heap_get_books self h = (a, h1) \<Longrightarrow>
     Inr (h1 ! a) = fst (InMemoryLibrary_get_books \<lparr>store = h ! self, out = ls\<rparr>)"
  by (auto simp: heap_get_books_def new_list_def InMemoryLibrary_get_books_def)

lemma heap_remove_book_other:
  "a \<noteq> self \<Longrightarrow> snd (heap_remove_book lower self t h) ! a = h ! a"
  by (simp add: heap_remove_book_def split: option.splits)

text \<open>
  Claim C8. \<^verbatim>\<open>get_books\<close> of \<^verbatim>\<open>InMemoryLibrary\<close> returns a snapshot: the list object
  it returns is new (its address \<open>a\<close> is none of the heap before, and differs from that
  of \<^verbatim>\<open>self._books\<close>), holds the current books, and no object of the heap is changed.
  So whatever the caller writes into the returned list leaves the store's list as it
  was, and a later \<^verbatim>\<open>add_book\<close> or \<^verbatim>\<open>remove_book\<close> of the store leaves the returned
  list as it was.
\<close>

theorem get_books_returns_snapshot:
  assumes "self < length h" and "heap_get_books self h = (a, h1)"
  shows "a = length h \<and> a \<noteq> self \<and> take (length h) h1 = h
    \<and> h1 ! a = h ! self \<and> h1 ! self = h ! self
    \<and> mutate a xs h1 ! a = xs \<and> mutate a xs h1 ! self = h ! self
    \<and> heap_add_book self b h1 ! self = h ! self @ [b] \<and> heap_add_book self b h1 ! a = h ! self
    \<and> snd (heap_remove_book lower self t h1) ! a = h ! self"
proof -
  from assms(2) have a: "a = length h" and h1: "h1 = h @ [h ! self]"
    by (simp_all add: heap_get_books_def new_list_def)
  from a assms(1) have ne: "a \<noteq> self" by simp
  from a h1 assms(1) have cells: "h1 ! a = h ! self" "h1 ! self = h ! self" "self < length h1" "a < length h1"
    by (simp_all add: nth_append)
  from ne cells have "snd (heap_remove_book lower self t h1) ! a = h ! self"
    by (simp add: heap_remove_book_other)
  with a h1 ne cells assms(1) show ?thesis
    by (simp add: mutate_def heap_add_book_def nth_append)
qed

theorem get_books_returns_snapshot_witness:
  "(0::nat) < length [[dune]] \<and> heap_get_books 0 [[dune]] = (1, [[dune], [dune]])
   \<and> mutate 1 [] [[dune], [dune]] ! 0 = [dune]
   \<and> heap_add_book 0 DUNE [[dune], [dune]] ! 0 = [dune, DUNE]
   \<and> heap_add_book 0 DUNE [[dune], [dune]] ! 1 = [dune]
   \<and> heap_remove_book ascii_lower 0 ''DUNE'' [[dune], [dune]] = (True, [[], [dune]])
   \<and> snd (heap_remove_book ascii_lower 0 ''DUNE'' [[dune], [dune]]) ! 1 = [dune]"
proof -
  have 1: "(0::nat) < length [[dune]]" by simp
  have 2: "heap_get_books 0 [[dune]] = (1, [[dune], [dune]])"
    by (simp add: heap_get_books_def new_list_def)
  have 3: "heap_remove_book ascii_lower 0 ''DUNE'' [[dune], [dune]] = (True, [[], [dune]])"
    by (simp add: heap_remove_book_def del_at_def examples eval_lower)
  from get_books_returns_snapshot [OF 1 2, of "[]" DUNE ascii_lower "''DUNE''"] 1 2 3
  show ?thesis by simp
qed

end
